theory Spec2Isabelle
  imports
    Complex_Main
    "HOL-Library.Word"
    "HOL-Library.Multiset"
    "HOL-Library.Product_Lexorder"
begin

section \<open>The vector index of flashcore (src/flashcore/src/vector_search.cpp)\<close>

text \<open>
  The index is the only module of the library with an algorithm: a bounded store of
  (identifier, vector) entries with an exhaustive nearest-neighbour search. This theory
  embeds its four operations and proves what they do.

  Conventions of the embedding.
  \<^item> The C type \<open>int\<close> is a 32-bit word, read as a signed value by \<open>sint\<close>. The two
    conversions between \<open>int\<close> and \<open>size_t\<close> (64 bits, unsigned) that the code performs
    are written out with their wrap-around.
  \<^item> The C type \<open>float\<close> is a type parameter \<open>'f\<close> with the operations the code uses
    (\<open>0\<close>, \<open>+\<close>, \<open>-\<close>, \<open>*\<close>, comparison) and the square root passed as an argument
    \<open>fsqrt\<close>. No algebraic law is assumed of the arithmetic, so a statement proved for
    every \<open>'f\<close> holds for rounded arithmetic too. The comparison is a linear order: the
    model covers runs in which no distance is a NaN (\<open>std::sort\<close> has no defined result
    otherwise). A distance is the square root of a sum of squares that starts at \<open>0.0f\<close>,
    so it is never the negative zero, and distances that compare equal are equal.
    Concrete runs are evaluated over the reals with \<open>sqrt\<close>, on inputs where single
    precision is exact.
  \<^item> A \<open>float*\<close> argument is the list of the floats readable from the pointer. Reading
    past its end, or past the end of a stored vector, is undefined behaviour in C++; so
    is building a vector from a range of negative length. An operation whose run is
    undefined returns \<open>None\<close>.
  \<^item> Each operation takes the index and returns the outcome together with the index
    after the call.
\<close>

subsection \<open>Integers\<close>

type_synonym c_int = "32 word"

text \<open>The conversion of an \<open>int\<close> to \<open>size_t\<close>: the value modulo \<open>2 ^ 64\<close>.\<close>

definition size_t_of_int :: "c_int \<Rightarrow> nat" where
  "size_t_of_int c = nat (sint c mod 2 ^ 64)"

text \<open>\<open>static_cast<int>\<close> of a \<open>size_t\<close>: the low 32 bits.\<close>

definition int_of_size_t :: "nat \<Rightarrow> c_int" where
  "int_of_size_t n = word_of_nat n"

subsection \<open>The index\<close>

record 'f hnsw_index =
  dimensions :: c_int
  max_elements :: c_int
  vectors :: "(c_int \<times> 'f list) list"

datatype error = IndexFull | InvalidArgument

text \<open>
  \<open>create_hnsw_index\<close> stores its two arguments and returns the handle. It has no failing
  path; the result is a sum only so that "fails" can be said of it.
\<close>

definition create_hnsw_index :: "c_int \<Rightarrow> c_int \<Rightarrow> error + 'f hnsw_index" where
  "create_hnsw_index dims max_elems =
     Inr \<lparr>dimensions = dims, max_elements = max_elems, vectors = []\<rparr>"

text \<open>
  \<open>add_vector_to_index\<close>: the fullness test compares \<open>vectors.size()\<close>, a \<open>size_t\<close>, with
  \<open>max_elements\<close>, an \<open>int\<close> that is converted to \<open>size_t\<close> first. The return value
  \<open>-1\<close> is \<open>Inl IndexFull\<close>, the return value \<open>0\<close> is \<open>Inr ()\<close>.
\<close>

definition add_vector_to_index ::
  "'f hnsw_index \<Rightarrow> 'f list \<Rightarrow> c_int \<Rightarrow> ((error + unit) \<times> 'f hnsw_index) option" where
  "add_vector_to_index index vector ident =
     (if size_t_of_int (max_elements index) \<le> length (vectors index)
      then Some (Inl IndexFull, index)
      else if sint (dimensions index) < 0 \<or> length vector < nat (sint (dimensions index))
      then None
      else Some (Inr (),
        index\<lparr>vectors := vectors index @ [(ident, take (nat (sint (dimensions index))) vector)]\<rparr>))"

subsection \<open>Search\<close>

text \<open>
  The inner loop, \<open>for (int i = 0; i < index->dimensions; ++i)\<close>, with the running sum
  \<open>distance\<close> as accumulator.
\<close>

function distance_loop ::
  "int \<Rightarrow> int \<Rightarrow> 'f::{zero,plus,minus,times,linorder} list \<Rightarrow> 'f list \<Rightarrow> 'f \<Rightarrow> 'f option" where
  "distance_loop i dims query stored distance =
     (if i < dims
      then (if 0 \<le> i \<and> nat i < length query \<and> nat i < length stored
            then distance_loop (i + 1) dims query stored
                   (distance + (query ! nat i - stored ! nat i) * (query ! nat i - stored ! nat i))
            else None)
      else Some distance)"
  by pat_completeness auto
termination
  by (relation "measure (\<lambda>(i, dims, query, stored, distance). nat (dims - i))") auto

declare distance_loop.simps [simp del]

definition euclidean_distance ::
  "('f \<Rightarrow> 'f) \<Rightarrow> int \<Rightarrow> 'f::{zero,plus,minus,times,linorder} list \<Rightarrow> 'f list \<Rightarrow> 'f option" where
  "euclidean_distance fsqrt dims query stored =
     map_option fsqrt (distance_loop 0 dims query stored 0)"

text \<open>
  The outer loop over \<open>index->vectors\<close>, which appends one (distance, id) pair for each
  entry to \<open>distances\<close>.
\<close>

fun distances_loop ::
  "('f \<Rightarrow> 'f) \<Rightarrow> int \<Rightarrow> 'f::{zero,plus,minus,times,linorder} list \<Rightarrow> (c_int \<times> 'f list) list
     \<Rightarrow> ('f \<times> c_int) list \<Rightarrow> ('f \<times> c_int) list option" where
  "distances_loop fsqrt dims query [] distances = Some distances"
| "distances_loop fsqrt dims query ((ident, stored) # rest) distances =
     (case euclidean_distance fsqrt dims query stored of
        None \<Rightarrow> None
      | Some d \<Rightarrow> distances_loop fsqrt dims query rest (distances @ [(d, ident)]))"

text \<open>
  \<open>std::sort\<close> is called without a comparator, so it orders the pairs by \<open>operator<\<close> of
  \<open>std::pair<float, int>\<close>:
  \<^verbatim>\<open>a.first < b.first || (!(b.first < a.first) && a.second < b.second)\<close>.
\<close>

definition pair_less :: "('f::linorder \<times> c_int) \<Rightarrow> ('f \<times> c_int) \<Rightarrow> bool" where
  "pair_less a b \<longleftrightarrow> fst a < fst b \<or> (\<not> fst b < fst a \<and> sint (snd a) < sint (snd b))"

text \<open>
  The algorithm of \<open>std::sort\<close> is the library's. Its contract is that the result is a
  permutation of the input in which no element is \<open>pair_less\<close> than an earlier one. Two
  pairs neither of which is \<open>pair_less\<close> than the other are equal, so there is one such
  permutation (\<open>std_sort_unique\<close> below), and any sorting function computes it. The model
  sorts by insertion on the key \<open>pair_key\<close>, whose lexicographic order is \<open>pair_less\<close>
  (\<open>pair_less_key\<close> below).
\<close>

definition pair_key :: "('f \<times> c_int) \<Rightarrow> ('f \<times> int)" where
  "pair_key a = (fst a, sint (snd a))"

definition std_sort :: "('f::linorder \<times> c_int) list \<Rightarrow> ('f \<times> c_int) list" where
  "std_sort xs = sort_key pair_key xs"

text \<open>
  \<open>search_vector_in_index\<close>. In \<open>k > index->vectors.size()\<close> the \<open>int\<close> is converted to
  \<open>size_t\<close>; in \<open>std::min(k, static_cast<int>(distances.size()))\<close> the size is cut to an
  \<open>int\<close>. The outcome \<open>Inr (result_count, results)\<close> holds the return value and the pairs
  \<open>(result_ids[i], result_distances[i])\<close> written for \<open>i < result_count\<close>.
\<close>

definition search_vector_in_index ::
  "('f \<Rightarrow> 'f) \<Rightarrow> 'f::{zero,plus,minus,times,linorder} hnsw_index \<Rightarrow> 'f list \<Rightarrow> c_int
     \<Rightarrow> ((error + int \<times> (c_int \<times> 'f) list) \<times> 'f hnsw_index) option" where
  "search_vector_in_index fsqrt index query_vector k =
     (if sint k \<le> 0 \<or> length (vectors index) < size_t_of_int k
      then Some (Inl InvalidArgument, index)
      else (case distances_loop fsqrt (sint (dimensions index)) query_vector (vectors index) [] of
              None \<Rightarrow> None
            | Some distances \<Rightarrow>
                (let sorted_distances = std_sort distances;
                     result_count = min (sint k) (sint (int_of_size_t (length sorted_distances)))
                 in Some (Inr (result_count,
                            map (\<lambda>p. (snd p, fst p)) (take (nat result_count) sorted_distances)),
                          index))))"

subsection \<open>Sequences of insert calls\<close>

text \<open>
  A client that makes the insert calls of a list one after the other, on the index the
  previous call left, and collects the outcomes.
\<close>

fun add_all ::
  "'f hnsw_index \<Rightarrow> ('f list \<times> c_int) list \<Rightarrow> ((error + unit) list \<times> 'f hnsw_index) option" where
  "add_all index [] = Some ([], index)"
| "add_all index ((vector, ident) # calls) =
     (case add_vector_to_index index vector ident of
        None \<Rightarrow> None
      | Some (r, index') \<Rightarrow>
          (case add_all index' calls of
             None \<Rightarrow> None
           | Some (rs, index'') \<Rightarrow> Some (r # rs, index'')))"

subsection \<open>What the specification says\<close>

text \<open>
  The distance of the specification, in the arithmetic of the code:
  \<open>sqrt(sum over i in [0, dimensions) of (query[i] - vector[i])^2)\<close>, the sum taken
  from \<open>0\<close> upwards.
\<close>

definition spec_distance ::
  "('f \<Rightarrow> 'f) \<Rightarrow> nat \<Rightarrow> 'f::{zero,plus,minus,times,linorder} list \<Rightarrow> 'f list \<Rightarrow> 'f" where
  "spec_distance fsqrt n query stored =
     fsqrt (foldl (\<lambda>s i. s + (query ! i - stored ! i) * (query ! i - stored ! i)) 0 [0..<n])"

text \<open>The (distance, identifier) pair of each stored entry, in insertion order.\<close>

definition spec_pairs ::
  "('f \<Rightarrow> 'f) \<Rightarrow> 'f::{zero,plus,minus,times,linorder} hnsw_index \<Rightarrow> 'f list \<Rightarrow> ('f \<times> c_int) list" where
  "spec_pairs fsqrt index query =
     map (\<lambda>e. (spec_distance fsqrt (nat (sint (dimensions index))) query (snd e), fst e))
       (vectors index)"

text \<open>
  The ranking of the specification: "ascending by distance; when distances compare
  equal, the tie-break order must be insertion order (stable sort on the original
  sequence position)". \<open>sort_key\<close> is a stable sort.
\<close>

definition spec_ranking :: "('f::linorder \<times> c_int) list \<Rightarrow> ('f \<times> c_int) list" where
  "spec_ranking xs = sort_key fst xs"

text \<open>
  The ascending lexicographic order of (distance, identifier) pairs, identifiers
  compared as signed integers.
\<close>

definition lex_le :: "('f::linorder \<times> c_int) \<Rightarrow> ('f \<times> c_int) \<Rightarrow> bool" where
  "lex_le a b \<longleftrightarrow> fst a < fst b \<or> (fst a = fst b \<and> sint (snd a) \<le> sint (snd b))"

text \<open>
  Every read of a search is in range: no entry is stored, or the query and every stored
  vector have at least \<open>dimensions\<close> elements.
\<close>

definition reads_ok :: "int \<Rightarrow> 'f list \<Rightarrow> (c_int \<times> 'f list) list \<Rightarrow> bool" where
  "reads_ok dims query entries \<longleftrightarrow>
     list_all (\<lambda>e. nat dims \<le> length query \<and> nat dims \<le> length (snd e)) entries"

subsection \<open>Concrete indexes\<close>

text \<open>
  The index and the query of tests/test_vector_search.cpp: three vectors of dimension 4,
  inserted under the identifiers 1, 2 and 3.
\<close>

definition test_index :: "real hnsw_index" where
  "test_index = \<lparr>dimensions = 4, max_elements = 100,
     vectors = [(1, [1, 2, 3, 4]), (2, [2, 3, 4, 5]), (3, [3, 4, 5, 6])]\<rparr>"

definition test_query :: "real list" where
  "test_query = [1.5, 2.5, 3.5, 4.5]"

text \<open>The first two vectors of the test, inserted under the identifiers 2 and 1.\<close>

definition tie_index :: "real hnsw_index" where
  "tie_index = \<lparr>dimensions = 4, max_elements = 100,
     vectors = [(2, [1, 2, 3, 4]), (1, [2, 3, 4, 5])]\<rparr>"

text \<open>
  An index created with capacity \<open>-1\<close> and filled by \<open>2 ^ 31\<close> inserts, one entry more
  than \<open>INT_MAX\<close>.
\<close>

definition big_index :: "real hnsw_index" where
  "big_index = \<lparr>dimensions = 1, max_elements = - 1, vectors = replicate (2 ^ 31) (7, [0])\<rparr>"

section \<open>Lemmas\<close>

subsection \<open>The conversions between \<open>int\<close> and \<open>size_t\<close>\<close>

lemma size_t_of_int_nonneg: "0 \<le> sint c \<Longrightarrow> size_t_of_int c = nat (sint c)"
proof -
  assume a: "0 \<le> sint c"
  have "sint c < 2 ^ 31" using sint_lt [of c] by simp
  then have "sint c < 2 ^ 64" by simp
  with a show ?thesis by (simp add: size_t_of_int_def)
qed

lemma size_t_of_int_neg: "sint c < 0 \<Longrightarrow> size_t_of_int c = nat (2 ^ 64 + sint c)"
proof -
  assume a: "sint c < 0"
  have "- (2 ^ 31) \<le> sint c" using sint_ge [of c] by simp
  then have b: "0 \<le> 2 ^ 64 + sint c" by simp
  have "sint c mod 2 ^ 64 = (2 ^ 64 + sint c) mod 2 ^ 64" by simp
  also have "\<dots> = 2 ^ 64 + sint c" using a b by (intro mod_pos_pos_trivial) auto
  finally show ?thesis by (simp add: size_t_of_int_def)
qed

lemma size_t_of_int_neg_ge: "sint c < 0 \<Longrightarrow> 2 ^ 63 \<le> size_t_of_int c"
proof -
  assume a: "sint c < 0"
  have "- (2 ^ 31) \<le> sint c" using sint_ge [of c] by simp
  then have "(2::int) ^ 63 \<le> 2 ^ 64 + sint c" by simp
  then have "nat (2 ^ 63) \<le> nat (2 ^ 64 + sint c)" by (rule nat_mono)
  then show ?thesis using a by (simp add: size_t_of_int_neg)
qed

lemma sint_int_of_size_t: "n < 2 ^ 31 \<Longrightarrow> sint (int_of_size_t n) = int n"
proof -
  assume a: "n < 2 ^ 31"
  have "sint (word_of_nat n :: 32 word) = signed_take_bit 31 (int n)"
    using sint_sbintrunc' [where 'a = 32, of "int n"] by simp
  also have "\<dots> = int n" using a by (simp add: signed_take_bit_int_eq_self_iff)
  finally show ?thesis by (simp add: int_of_size_t_def)
qed

subsection \<open>The two loops of the search\<close>

lemma distance_loop_eq:
  "0 \<le> i \<Longrightarrow> distance_loop i dims q v acc =
     (if i < dims \<and> (length q < nat dims \<or> length v < nat dims) then None
      else Some (foldl (\<lambda>s j. s + (q ! j - v ! j) * (q ! j - v ! j)) acc [nat i..<nat dims]))"
proof (induction i dims q v acc rule: distance_loop.induct)
  case (1 i dims q v acc)
  show ?case
  proof (cases "i < dims")
    case False
    then show ?thesis by (subst distance_loop.simps) simp
  next
    case lt: True
    show ?thesis
    proof (cases "nat i < length q \<and> nat i < length v")
      case False
      with lt "1.prems" show ?thesis
        by (subst distance_loop.simps) auto
    next
      case True
      have up: "[nat i..<nat dims] = nat i # [nat (i + 1)..<nat dims]"
        using lt "1.prems" by (simp add: upt_conv_Cons nat_add_distrib)
      have "distance_loop i dims q v acc =
            distance_loop (i + 1) dims q v (acc + (q ! nat i - v ! nat i) * (q ! nat i - v ! nat i))"
        using lt True "1.prems" by (subst distance_loop.simps) simp
      also have "\<dots> = (if i + 1 < dims \<and> (length q < nat dims \<or> length v < nat dims) then None
          else Some (foldl (\<lambda>s j. s + (q ! j - v ! j) * (q ! j - v ! j))
                 (acc + (q ! nat i - v ! nat i) * (q ! nat i - v ! nat i)) [nat (i + 1)..<nat dims]))"
        using lt True "1.prems" by (intro "1.IH") auto
      finally show ?thesis using lt True "1.prems" up by auto
    qed
  qed
qed

lemma euclidean_distance_eq:
  "euclidean_distance fsqrt dims q v =
     (if nat dims \<le> length q \<and> nat dims \<le> length v
      then Some (spec_distance fsqrt (nat dims) q v) else None)"
  by (auto simp: euclidean_distance_def spec_distance_def distance_loop_eq)

lemma distances_loop_eq:
  "distances_loop fsqrt dims q es acc =
     (if reads_ok dims q es
      then Some (acc @ map (\<lambda>e. (spec_distance fsqrt (nat dims) q (snd e), fst e)) es)
      else None)"
proof (induction es arbitrary: acc)
  case Nil
  then show ?case by (simp add: reads_ok_def)
next
  case (Cons e es)
  obtain ident v where e: "e = (ident, v)" by (cases e)
  show ?case
    by (simp add: e Cons.IH euclidean_distance_eq reads_ok_def)
qed

subsection \<open>The order of \<open>std::sort\<close>\<close>

lemma pair_less_key: "pair_less a b \<longleftrightarrow> pair_key a < pair_key b"
  by (auto simp: pair_less_def pair_key_def)

lemma pair_key_inj: "pair_key a = pair_key b \<longleftrightarrow> a = b"
  by (cases a; cases b) (auto simp: pair_key_def intro: signed_word_eqI)

lemma not_pair_less_key: "\<not> pair_less b a \<longleftrightarrow> pair_key a \<le> pair_key b"
  by (simp add: pair_less_key not_less)

lemma lex_le_key: "lex_le a b \<longleftrightarrow> pair_key a \<le> pair_key b"
  by (auto simp: lex_le_def pair_key_def)

lemma std_sort_mset: "mset (std_sort xs) = mset xs"
  by (simp add: std_sort_def)

lemma std_sort_length: "length (std_sort xs) = length xs"
  by (simp add: std_sort_def)

lemma std_sort_sorted: "sorted_wrt (\<lambda>a b. \<not> pair_less b a) (std_sort xs)"
proof -
  have "sorted (map pair_key (sort_key pair_key xs))" by (rule sorted_sort_key)
  then show ?thesis
    by (simp add: std_sort_def sorted_wrt_map not_pair_less_key)
qed

lemma std_sort_unique:
  assumes "mset ys = mset xs" and "sorted_wrt (\<lambda>a b. \<not> pair_less b a) ys"
  shows "ys = std_sort xs"
proof -
  have s: "sorted (map pair_key ys)"
    using assms(2) by (simp add: sorted_wrt_map not_pair_less_key)
  have "mset (map pair_key ys) = mset (map pair_key xs)"
    using assms(1) by simp
  with s have "sort (map pair_key xs) = map pair_key ys"
    by (intro properties_for_sort)
  moreover have "sort (map pair_key xs) = map pair_key (sort_key pair_key xs)"
    by (intro properties_for_sort) (simp_all add: sorted_sort_key)
  ultimately have "map pair_key ys = map pair_key (sort_key pair_key xs)" by simp
  then have "ys = sort_key pair_key xs"
    by (rule map_injective) (simp add: inj_on_def pair_key_inj)
  then show ?thesis by (simp add: std_sort_def)
qed

lemma k_check:
  "(sint k \<le> 0 \<or> length es < size_t_of_int k) \<longleftrightarrow> (sint k \<le> 0 \<or> int (length es) < sint k)"
proof (cases "sint k \<le> 0")
  case True
  then show ?thesis by simp
next
  case False
  then have "size_t_of_int k = nat (sint k)" by (simp add: size_t_of_int_nonneg)
  with False show ?thesis by auto
qed

subsection \<open>Search in closed form\<close>

lemma search_eq:
  "search_vector_in_index fsqrt index q k =
     (if sint k \<le> 0 \<or> int (length (vectors index)) < sint k
      then Some (Inl InvalidArgument, index)
      else if reads_ok (sint (dimensions index)) q (vectors index)
      then Some (Inr (min (sint k) (sint (int_of_size_t (length (vectors index)))),
                      map (\<lambda>p. (snd p, fst p))
                        (take (nat (min (sint k) (sint (int_of_size_t (length (vectors index))))))
                           (std_sort (spec_pairs fsqrt index q)))),
                 index)
      else None)"
  unfolding search_vector_in_index_def k_check
  by (simp add: distances_loop_eq spec_pairs_def std_sort_length Let_def)

subsection \<open>Insertion\<close>

lemma add_full:
  "0 \<le> sint (max_elements index) \<Longrightarrow> sint (max_elements index) \<le> int (length (vectors index)) \<Longrightarrow>
     add_vector_to_index index v i = Some (Inl IndexFull, index)"
  by (simp add: add_vector_to_index_def size_t_of_int_nonneg)

lemma add_ok:
  "length (vectors index) < size_t_of_int (max_elements index) \<Longrightarrow>
   0 \<le> sint (dimensions index) \<Longrightarrow> nat (sint (dimensions index)) \<le> length v \<Longrightarrow>
     add_vector_to_index index v i =
       Some (Inr (), index\<lparr>vectors := vectors index @ [(i, take (nat (sint (dimensions index))) v)]\<rparr>)"
  by (simp add: add_vector_to_index_def)

lemma add_cases:
  assumes "add_vector_to_index index v i = Some (r, index')"
  shows "(r = Inl IndexFull \<and> index' = index \<and>
            size_t_of_int (max_elements index) \<le> length (vectors index)) \<or>
         (r = Inr () \<and> length (vectors index) < size_t_of_int (max_elements index) \<and>
          index' = index\<lparr>vectors := vectors index @ [(i, take (nat (sint (dimensions index))) v)]\<rparr>)"
  using assms by (auto simp: add_vector_to_index_def split: if_splits)

lemma add_keeps_capacity:
  assumes "add_vector_to_index index v i = Some (r, index')"
      and "0 < sint (max_elements index)"
      and "length (vectors index) \<le> nat (sint (max_elements index))"
  shows "max_elements index' = max_elements index \<and> dimensions index' = dimensions index \<and>
         length (vectors index') \<le> nat (sint (max_elements index))"
proof -
  have "size_t_of_int (max_elements index) = nat (sint (max_elements index))"
    using assms(2) by (simp add: size_t_of_int_nonneg)
  with add_cases [OF assms(1)] assms(3) show ?thesis by auto
qed

lemma add_all_capacity:
  "add_all index calls = Some (rs, index') \<Longrightarrow> 0 < sint (max_elements index) \<Longrightarrow>
   length (vectors index) \<le> nat (sint (max_elements index)) \<Longrightarrow>
     max_elements index' = max_elements index \<and> dimensions index' = dimensions index \<and>
     length (vectors index') \<le> nat (sint (max_elements index))"
proof (induction calls arbitrary: index rs)
  case Nil
  then show ?case by simp
next
  case (Cons call calls)
  obtain v i where call: "call = (v, i)" by (cases call)
  from Cons.prems(1) obtain r index1 rs1 where
    step: "add_vector_to_index index v i = Some (r, index1)" and
    rest: "add_all index1 calls = Some (rs1, index')"
    by (auto simp: call split: option.splits)
  from add_keeps_capacity [OF step Cons.prems(2,3)]
  have k: "max_elements index1 = max_elements index" "dimensions index1 = dimensions index"
    "length (vectors index1) \<le> nat (sint (max_elements index))" by simp_all
  from Cons.IH [OF rest] k Cons.prems(2) show ?case by simp
qed

lemma add_all_negative_capacity:
  "sint (max_elements index) < 0 \<Longrightarrow> 0 \<le> sint (dimensions index) \<Longrightarrow>
   list_all (\<lambda>call. nat (sint (dimensions index)) \<le> length (fst call)) calls \<Longrightarrow>
   length (vectors index) + length calls \<le> 2 ^ 63 \<Longrightarrow>
     add_all index calls =
       Some (replicate (length calls) (Inr ()),
             index\<lparr>vectors := vectors index @
               map (\<lambda>call. (snd call, take (nat (sint (dimensions index))) (fst call))) calls\<rparr>)"
proof (induction calls arbitrary: index)
  case Nil
  then show ?case by simp
next
  case (Cons call calls)
  obtain v i where call: "call = (v, i)" by (cases call)
  let ?index1 = "index\<lparr>vectors := vectors index @ [(i, take (nat (sint (dimensions index))) v)]\<rparr>"
  have "2 ^ 63 \<le> size_t_of_int (max_elements index)"
    using Cons.prems(1) by (rule size_t_of_int_neg_ge)
  with Cons.prems(4) have "length (vectors index) < size_t_of_int (max_elements index)" by simp
  from add_ok [OF this Cons.prems(2)] Cons.prems(3)
  have step: "add_vector_to_index index v i = Some (Inr (), ?index1)" by (simp add: call)
  have "add_all ?index1 calls =
       Some (replicate (length calls) (Inr ()),
             ?index1\<lparr>vectors := vectors ?index1 @
               map (\<lambda>call. (snd call, take (nat (sint (dimensions ?index1))) (fst call))) calls\<rparr>)"
    using Cons.prems by (intro Cons.IH) simp_all
  with step show ?case by (simp add: call)
qed

lemma add_not_full:
  assumes "sint (max_elements index) < 0" and "length (vectors index) < 2 ^ 63"
  shows "add_vector_to_index index v i \<noteq> Some (Inl IndexFull, index')"
proof
  assume "add_vector_to_index index v i = Some (Inl IndexFull, index')"
  from add_cases [OF this] have "size_t_of_int (max_elements index) \<le> length (vectors index)"
    by simp
  moreover have "2 ^ 63 \<le> size_t_of_int (max_elements index)"
    using assms(1) by (rule size_t_of_int_neg_ge)
  ultimately show False using assms(2) by simp
qed

subsection \<open>The sorted pairs\<close>

lemma lex_le_not_less: "lex_le = (\<lambda>a b. \<not> pair_less b a)"
  by (intro ext) (simp add: not_pair_less_key lex_le_key)

lemma std_sort_sorted_lex: "sorted_wrt lex_le (std_sort xs)"
  by (simp add: lex_le_not_less std_sort_sorted)

lemma std_sort_sorted_fst: "sorted (map fst (std_sort xs))"
proof -
  have "sorted_wrt (\<lambda>a b. fst a \<le> fst b) (std_sort xs)"
    by (rule sorted_wrt_mono_rel [OF _ std_sort_sorted_lex]) (auto simp: lex_le_def)
  then show ?thesis by (simp add: sorted_map)
qed

lemma lex_sorted_unique:
  assumes "mset ys = mset xs" and "sorted_wrt lex_le ys"
  shows "ys = std_sort xs"
  using assms by (intro std_sort_unique) (simp_all add: lex_le_not_less)

text \<open>
  Where the identifiers ascend in insertion order, the order of \<open>std::sort\<close> is the
  stable order by distance.
\<close>

lemma insort_key_ids_ascending:
  "\<forall>y \<in> set ys. sint (snd x) \<le> sint (snd y) \<Longrightarrow>
     insort_key pair_key x ys = insort_key fst x ys"
  by (induction ys) (auto simp: pair_key_def)

lemma sort_key_ids_ascending:
  "sorted (map (\<lambda>p. sint (snd p)) xs) \<Longrightarrow> std_sort xs = spec_ranking xs"
proof (induction xs)
  case Nil
  then show ?case by (simp add: std_sort_def spec_ranking_def)
next
  case (Cons x xs)
  then have ih: "sort_key pair_key xs = sort_key fst xs"
    by (simp add: std_sort_def spec_ranking_def)
  from Cons.prems have "\<forall>y \<in> set (sort_key fst xs). sint (snd x) \<le> sint (snd y)"
    by auto
  then have "insort_key pair_key x (sort_key fst xs) = insort_key fst x (sort_key fst xs)"
    by (rule insort_key_ids_ascending)
  with ih show ?case by (simp add: std_sort_def spec_ranking_def)
qed

lemma ties_ascending:
  "sorted_wrt (\<lambda>r s. snd r = snd s \<longrightarrow> sint (fst r) \<le> sint (fst s))
     (map (\<lambda>p. (snd p, fst p)) (take n (std_sort xs)))"
proof -
  have "sorted_wrt lex_le (take n (std_sort xs))"
    by (rule sorted_wrt_take) (rule std_sort_sorted_lex)
  then have "sorted_wrt (\<lambda>a b. fst a = fst b \<longrightarrow> sint (snd a) \<le> sint (snd b))
      (take n (std_sort xs))"
    by (rule sorted_wrt_mono_rel [rotated]) (auto simp: lex_le_def)
  then show ?thesis by (simp add: sorted_wrt_map)
qed

lemma spec_pairs_length: "length (spec_pairs fsqrt index q) = length (vectors index)"
  by (simp add: spec_pairs_def)

lemma spec_pairs_ids:
  "map (\<lambda>p. sint (snd p)) (spec_pairs fsqrt index q) = map (\<lambda>e. sint (fst e)) (vectors index)"
  by (simp add: spec_pairs_def)

subsection \<open>Searches that pass the check of \<open>k\<close>\<close>

lemma search_success:
  assumes "0 < sint k" and "sint k \<le> int (length (vectors index))"
      and "reads_ok (sint (dimensions index)) q (vectors index)"
  shows "\<exists>n. search_vector_in_index fsqrt index q k =
           Some (Inr (n, map (\<lambda>p. (snd p, fst p))
                   (take (nat n) (std_sort (spec_pairs fsqrt index q)))), index)"
  using assms by (simp add: search_eq)

lemma search_valid:
  assumes "0 < sint k" and "sint k \<le> int (length (vectors index))"
      and "length (vectors index) < 2 ^ 31"
      and "reads_ok (sint (dimensions index)) q (vectors index)"
  shows "search_vector_in_index fsqrt index q k =
           Some (Inr (sint k, map (\<lambda>p. (snd p, fst p))
                   (take (nat (sint k)) (std_sort (spec_pairs fsqrt index q)))), index)"
proof -
  have "min (sint k) (sint (int_of_size_t (length (vectors index)))) = sint k"
    using assms(2,3) by (simp add: sint_int_of_size_t)
  with assms(1,2,4) show ?thesis by (simp add: search_eq)
qed

text \<open>The result of a search does not depend on the order of the entries.\<close>

lemma search_permutation:
  assumes "mset (vectors index2) = mset (vectors index)"
      and "dimensions index2 = dimensions index"
  shows "map_option fst (search_vector_in_index fsqrt index2 q k) =
         map_option fst (search_vector_in_index fsqrt index q k)"
proof -
  have l: "length (vectors index2) = length (vectors index)"
    using assms(1) by (metis size_mset)
  have s: "set (vectors index2) = set (vectors index)"
    using assms(1) by (metis set_mset_mset)
  have "mset (spec_pairs fsqrt index2 q) = mset (spec_pairs fsqrt index q)"
    using assms by (simp add: spec_pairs_def)
  then have "std_sort (spec_pairs fsqrt index2 q) = std_sort (spec_pairs fsqrt index q)"
    by (intro std_sort_unique [symmetric, THEN sym]) (simp_all add: std_sort_mset std_sort_sorted)
  with l s assms(2) show ?thesis
    by (simp add: search_eq reads_ok_def list_all_iff)
qed

lemma reads_ok_replicate:
  "reads_ok dims q (replicate n e) \<longleftrightarrow>
     n = 0 \<or> (nat dims \<le> length q \<and> nat dims \<le> length (snd e))"
  by (auto simp: reads_ok_def list_all_iff)

subsection \<open>Indexes built by construction and inserts\<close>

text \<open>
  Every stored vector has \<open>dimensions\<close> elements, and an index created with a positive
  capacity holds fewer than \<open>2 ^ 31\<close> entries.
\<close>

lemma add_keeps_lengths:
  assumes "add_vector_to_index index v i = Some (r, index')"
      and "\<forall>e \<in> set (vectors index). length (snd e) = nat (sint (dimensions index))"
  shows "dimensions index' = dimensions index \<and>
         (\<forall>e \<in> set (vectors index'). length (snd e) = nat (sint (dimensions index)))"
  using assms by (auto simp: add_vector_to_index_def split: if_splits)

lemma add_all_keeps_lengths:
  "add_all index calls = Some (rs, index') \<Longrightarrow>
   \<forall>e \<in> set (vectors index). length (snd e) = nat (sint (dimensions index)) \<Longrightarrow>
     dimensions index' = dimensions index \<and>
     (\<forall>e \<in> set (vectors index'). length (snd e) = nat (sint (dimensions index)))"
proof (induction calls arbitrary: index rs)
  case Nil
  then show ?case by simp
next
  case (Cons call calls)
  obtain v i where call: "call = (v, i)" by (cases call)
  from Cons.prems(1) obtain r index1 rs1 where
    step: "add_vector_to_index index v i = Some (r, index1)" and
    rest: "add_all index1 calls = Some (rs1, index')"
    by (auto simp: call split: option.splits)
  from add_keeps_lengths [OF step Cons.prems(2)]
  have k: "dimensions index1 = dimensions index"
    "\<forall>e \<in> set (vectors index1). length (snd e) = nat (sint (dimensions index1))" by simp_all
  from Cons.IH [OF rest k(2)] k(1) show ?case by simp
qed

lemma built_index:
  assumes "0 < sint c"
      and "create_hnsw_index d c = Inr index0"
      and "add_all index0 calls = Some (outcomes, index)"
  shows "dimensions index = d \<and> max_elements index = c \<and> length (vectors index) < 2 ^ 31 \<and>
         (\<forall>e \<in> set (vectors index). length (snd e) = nat (sint d))"
proof -
  from assms(2) have i0: "index0 = \<lparr>dimensions = d, max_elements = c, vectors = []\<rparr>"
    by (simp add: create_hnsw_index_def)
  from add_all_capacity [OF assms(3)] assms(1) i0
  have k: "max_elements index = c" "length (vectors index) \<le> nat (sint c)" by simp_all
  have "sint c < 2 ^ 31" using sint_lt [of c] by simp
  with k(2) have b: "length (vectors index) < 2 ^ 31" by simp
  from add_all_keeps_lengths [OF assms(3)] i0
  have l: "dimensions index = d" "\<forall>e \<in> set (vectors index). length (snd e) = nat (sint d)"
    by simp_all
  from k(1) b l show ?thesis by simp
qed

lemma built_search:
  assumes "0 < sint c"
      and "create_hnsw_index d c = Inr index0"
      and "add_all index0 calls = Some (outcomes, index)"
      and "0 < sint k" and "sint k \<le> int (length (vectors index))"
      and "nat (sint d) \<le> length q"
  shows "search_vector_in_index fsqrt index q k =
           Some (Inr (sint k, map (\<lambda>p. (snd p, fst p))
                   (take (nat (sint k)) (std_sort (spec_pairs fsqrt index q)))), index)"
proof -
  from built_index [OF assms(1-3)]
  have b: "dimensions index = d" "length (vectors index) < 2 ^ 31"
    "\<forall>e \<in> set (vectors index). length (snd e) = nat (sint d)" by simp_all
  from b(1,3) assms(6) have "reads_ok (sint (dimensions index)) q (vectors index)"
    by (simp add: reads_ok_def list_all_iff)
  with assms(4,5) b(2) show ?thesis by (intro search_valid)
qed

subsection \<open>An index with more than \<open>INT_MAX\<close> entries\<close>

text \<open>
  An index created with a negative capacity is never full, so inserts can take it past
  \<open>INT_MAX\<close> entries. There \<open>static_cast<int>(distances.size())\<close> wraps: on
  \<open>big_index\<close> a search with \<open>k = 1\<close> passes the check of \<open>k\<close>, \<open>std::min\<close> takes the
  cast size \<open>- 2 ^ 31\<close>, and the search returns that number and writes no result. The
  claims on the number of results are stated below for the indexes created with a
  positive capacity; none of them reaches this size.
\<close>

lemma cast_wraps_past_int_max:
  "add_all \<lparr>dimensions = 1, max_elements = - 1, vectors = []\<rparr> (replicate (2 ^ 31) ([0], 7)) =
     Some (replicate (2 ^ 31) (Inr ()), big_index) \<and>
   search_vector_in_index sqrt big_index [0] 1 = Some (Inr (- 2147483648, []), big_index)"
proof (intro conjI)
  show "add_all \<lparr>dimensions = 1, max_elements = - 1, vectors = []\<rparr>
      (replicate (2 ^ 31) ([0], 7)) = Some (replicate (2 ^ 31) (Inr ()), big_index)"
    using add_all_negative_capacity
      [of "\<lparr>dimensions = 1, max_elements = - 1, vectors = []\<rparr>" "replicate (2 ^ 31) ([0::real], 7)"]
    by (simp add: list_all_iff big_index_def)
  show "search_vector_in_index sqrt big_index [0] 1 = Some (Inr (- 2147483648, []), big_index)"
    by (simp add: search_eq reads_ok_replicate int_of_size_t_def big_index_def)
qed

subsection \<open>Over the reals\<close>

text \<open>
  In exact arithmetic the distance of the code is the Euclidean distance of the first
  \<open>n\<close> components.
\<close>

lemma foldl_sum:
  "foldl (\<lambda>s i. s + f i) a [0..<n] = a + (\<Sum>i<n. f i)" for f :: "nat \<Rightarrow> real"
  by (induction n) simp_all

lemma spec_distance_real:
  "spec_distance sqrt n q v = sqrt (\<Sum>i<n. (q ! i - v ! i)\<^sup>2)"
  by (simp add: spec_distance_def foldl_sum power2_eq_square)

subsection \<open>The run of the repository's test\<close>

lemma sqrt_9: "sqrt 9 = 3"
  by (rule real_sqrt_unique) simp_all

lemma test_pairs: "spec_pairs sqrt test_index test_query = [(1, 1), (1, 2), (3, 3)]"
  by (simp add: spec_pairs_def spec_distance_def test_index_def test_query_def sqrt_9 upt_rec)

lemma test_reads_ok: "reads_ok (sint (dimensions test_index)) test_query (vectors test_index)"
  by (simp add: reads_ok_def test_index_def test_query_def)

text \<open>
  On the input of tests/test_vector_search.cpp the vectors 1 and 2 are both at distance
  1 from the query and vector 3 is at distance 3: the search returns the identifiers
  1, 2, 3 in this order, where the test asserts that the first one is 2. The arithmetic
  of this run is exact in single precision.
\<close>

lemma test_run:
  "search_vector_in_index sqrt test_index test_query 3 =
     Some (Inr (3, [(1, 1), (2, 1), (3, 3)]), test_index)"
  by (simp add: search_vector_in_index_def size_t_of_int_def euclidean_distance_def
      distance_loop.simps int_of_size_t_def std_sort_def pair_key_def test_index_def
      test_query_def sqrt_9)

lemma test_index_built:
  "create_hnsw_index 4 100 =
     Inr \<lparr>dimensions = 4, max_elements = 100, vectors = ([] :: (c_int \<times> real list) list)\<rparr> \<and>
   add_all \<lparr>dimensions = 4, max_elements = 100, vectors = []\<rparr>
     [([1, 2, 3, 4], 1), ([2, 3, 4, 5], 2), ([3, 4, 5, 6], 3)] =
     Some ([Inr (), Inr (), Inr ()], test_index)"
  by (simp add: create_hnsw_index_def add_vector_to_index_def size_t_of_int_def test_index_def)

section \<open>The claims\<close>

subsection \<open>Construction\<close>

text \<open>
  C2, as claimed: construction with \<open>dimensions \<le> 0\<close> or \<open>max_elements \<le> 0\<close> fails with
  InvalidArgument. The code does not: with dimensions \<open>0\<close> and capacity \<open>-1\<close> it returns an
  index.
\<close>

theorem create_accepts_nonpositive:
  "(create_hnsw_index 0 (- 1) :: error + real hnsw_index) =
     Inr \<lparr>dimensions = 0, max_elements = - 1, vectors = []\<rparr> \<and>
   (create_hnsw_index 0 (- 1) :: error + real hnsw_index) \<noteq> Inl InvalidArgument"
  by (simp add: create_hnsw_index_def)

text \<open>
  C2, amended: construction validates nothing. For all dimensions and capacities, the
  non-positive ones too, it returns an index with these two parameters and no entry.
\<close>

theorem create_never_fails:
  "\<exists>index. create_hnsw_index d c = Inr index \<and>
     dimensions index = d \<and> max_elements index = c \<and> vectors index = []"
  by (simp add: create_hnsw_index_def)

subsection \<open>Insertion\<close>

text \<open>
  C3: an index created with a positive capacity never holds more entries than that
  capacity, whatever insert calls are made on it; and when it holds exactly that many,
  every insert returns IndexFull and leaves the index as it was.
\<close>

theorem capacity_invariant:
  assumes "0 < sint c"
      and "create_hnsw_index d c = Inr index0"
      and "add_all index0 calls = Some (rs, index)"
  shows "length (vectors index) \<le> nat (sint c) \<and>
         (length (vectors index) = nat (sint c) \<longrightarrow>
            (\<forall>v i. add_vector_to_index index v i = Some (Inl IndexFull, index)))"
proof -
  from assms(2) have i0: "index0 = \<lparr>dimensions = d, max_elements = c, vectors = []\<rparr>"
    by (simp add: create_hnsw_index_def)
  from add_all_capacity [OF assms(3)] assms(1) i0
  have k: "max_elements index = c" "length (vectors index) \<le> nat (sint c)" by simp_all
  show ?thesis
  proof (intro conjI impI allI)
    show "length (vectors index) \<le> nat (sint c)" by (rule k(2))
  next
    fix v i
    assume "length (vectors index) = nat (sint c)"
    with assms(1) k(1) show "add_vector_to_index index v i = Some (Inl IndexFull, index)"
      by (intro add_full) simp_all
  qed
qed

theorem capacity_invariant_witness:
  "0 < sint (1 :: c_int) \<and>
   create_hnsw_index 1 1 =
     Inr \<lparr>dimensions = 1, max_elements = 1, vectors = ([] :: (c_int \<times> real list) list)\<rparr> \<and>
   add_all \<lparr>dimensions = 1, max_elements = 1, vectors = []\<rparr> [([0::real], 1), ([1], 2)] =
     Some ([Inr (), Inl IndexFull], \<lparr>dimensions = 1, max_elements = 1, vectors = [(1, [0])]\<rparr>) \<and>
   length (vectors \<lparr>dimensions = 1, max_elements = 1, vectors = [(1 :: c_int, [0::real])]\<rparr>)
     \<le> nat (sint (1 :: c_int)) \<and>
   add_vector_to_index \<lparr>dimensions = 1, max_elements = 1, vectors = [(1, [0::real])]\<rparr> [5] 9 =
     Some (Inl IndexFull, \<lparr>dimensions = 1, max_elements = 1, vectors = [(1, [0])]\<rparr>)"
proof -
  have a: "0 < sint (1 :: c_int)" by simp
  have b: "create_hnsw_index 1 1 =
      Inr \<lparr>dimensions = 1, max_elements = 1, vectors = ([] :: (c_int \<times> real list) list)\<rparr>"
    by (simp add: create_hnsw_index_def)
  have c: "add_all \<lparr>dimensions = 1, max_elements = 1, vectors = []\<rparr> [([0::real], 1), ([1], 2)] =
     Some ([Inr (), Inl IndexFull], \<lparr>dimensions = 1, max_elements = 1, vectors = [(1, [0])]\<rparr>)"
    by (simp add: add_vector_to_index_def size_t_of_int_def)
  from capacity_invariant [OF a b c] a b c show ?thesis by simp
qed

text \<open>
  C7: on an index that holds fewer entries than its capacity, an insert (of a buffer with
  at least \<open>dimensions\<close> floats) succeeds and appends one entry, made of the identifier
  and of the first \<open>dimensions\<close> floats of the buffer, whatever follows them. The count
  grows by one, and every entry stored before is where it was, unchanged.
\<close>

theorem add_appends_entry:
  assumes "int (length (vectors index)) < sint (max_elements index)"
      and "0 \<le> sint (dimensions index)"
      and "nat (sint (dimensions index)) \<le> length v"
  shows "\<exists>index'. add_vector_to_index index v i = Some (Inr (), index') \<and>
           vectors index' = vectors index @ [(i, take (nat (sint (dimensions index))) v)] \<and>
           length (take (nat (sint (dimensions index))) v) = nat (sint (dimensions index)) \<and>
           length (vectors index') = length (vectors index) + 1 \<and>
           (\<forall>j < length (vectors index). vectors index' ! j = vectors index ! j) \<and>
           dimensions index' = dimensions index \<and> max_elements index' = max_elements index"
proof -
  from assms(1) have "0 \<le> sint (max_elements index)" by simp
  then have "size_t_of_int (max_elements index) = nat (sint (max_elements index))"
    by (rule size_t_of_int_nonneg)
  with assms(1) have "length (vectors index) < size_t_of_int (max_elements index)" by simp
  from add_ok [OF this assms(2,3)] assms(3) show ?thesis
    by (simp add: nth_append)
qed

theorem add_appends_entry_witness:
  "int (length (vectors \<lparr>dimensions = 2, max_elements = 5, vectors = [(7, [1::real, 2])]\<rparr>))
     < sint (5 :: c_int) \<and>
   0 \<le> sint (2 :: c_int) \<and> nat (sint (2 :: c_int)) \<le> length [3::real, 4, 5] \<and>
   add_vector_to_index
     \<lparr>dimensions = 2, max_elements = 5, vectors = [(7, [1::real, 2])]\<rparr> [3, 4, 5] 9 =
     Some (Inr (), \<lparr>dimensions = 2, max_elements = 5, vectors = [(7, [1, 2]), (9, [3, 4])]\<rparr>)"
  using add_appends_entry
    [of "\<lparr>dimensions = 2, max_elements = 5, vectors = [(7, [1::real, 2])]\<rparr>" "[3, 4, 5]" 9]
  by (simp add: add_vector_to_index_def size_t_of_int_def)

text \<open>
  C10: on an index with a negative capacity no insert returns IndexFull. The capacity is
  converted to \<open>size_t\<close> for the fullness test and becomes at least \<open>2 ^ 63\<close>, which no
  count reaches. So every call of a sequence of inserts succeeds (the dimensions not
  negative and the buffers holding that many floats), and the count grows by the number
  of calls, whatever that number. The bound \<open>2 ^ 63\<close> on the count is above the size any
  \<open>std::vector\<close> can have.
\<close>

theorem negative_capacity_never_full:
  assumes "sint (max_elements index) < 0"
      and "length (vectors index) + length calls < 2 ^ 63"
  shows "(\<forall>v i index'. add_vector_to_index index v i \<noteq> Some (Inl IndexFull, index')) \<and>
         (0 \<le> sint (dimensions index) \<and>
          list_all (\<lambda>call. nat (sint (dimensions index)) \<le> length (fst call)) calls \<longrightarrow>
            (\<exists>index'. add_all index calls = Some (replicate (length calls) (Inr ()), index') \<and>
               length (vectors index') = length (vectors index) + length calls))"
proof (intro conjI allI impI)
  fix v i index'
  from assms(2) have "length (vectors index) < 2 ^ 63" by simp
  with assms(1) show "add_vector_to_index index v i \<noteq> Some (Inl IndexFull, index')"
    by (rule add_not_full)
next
  assume "0 \<le> sint (dimensions index) \<and>
    list_all (\<lambda>call. nat (sint (dimensions index)) \<le> length (fst call)) calls"
  with add_all_negative_capacity [of index calls] assms
  have "add_all index calls =
       Some (replicate (length calls) (Inr ()),
             index\<lparr>vectors := vectors index @
               map (\<lambda>call. (snd call, take (nat (sint (dimensions index))) (fst call))) calls\<rparr>)"
    by simp
  then show "\<exists>index'. add_all index calls = Some (replicate (length calls) (Inr ()), index') \<and>
      length (vectors index') = length (vectors index) + length calls"
    by simp
qed

theorem negative_capacity_never_full_witness:
  "sint (max_elements \<lparr>dimensions = 1, max_elements = - 1,
      vectors = ([] :: (c_int \<times> real list) list)\<rparr>) < 0 \<and>
   length (vectors \<lparr>dimensions = 1, max_elements = - 1,
      vectors = ([] :: (c_int \<times> real list) list)\<rparr>) +
     length [([0::real], 1 :: c_int), ([1], 2), ([2], 3)] < 2 ^ 63 \<and>
   0 \<le> sint (dimensions \<lparr>dimensions = 1, max_elements = - 1,
      vectors = ([] :: (c_int \<times> real list) list)\<rparr>) \<and>
   list_all (\<lambda>call. nat (sint (1 :: c_int)) \<le> length (fst call))
     [([0::real], 1 :: c_int), ([1], 2), ([2], 3)] \<and>
   add_all \<lparr>dimensions = 1, max_elements = - 1, vectors = []\<rparr>
       [([0::real], 1), ([1], 2), ([2], 3)] =
     Some ([Inr (), Inr (), Inr ()],
       \<lparr>dimensions = 1, max_elements = - 1, vectors = [(1, [0]), (2, [1]), (3, [2])]\<rparr>) \<and>
   add_vector_to_index \<lparr>dimensions = 1, max_elements = - 1, vectors = []\<rparr> [0::real] 1 \<noteq>
     Some (Inl IndexFull, \<lparr>dimensions = 1, max_elements = - 1, vectors = []\<rparr>)"
proof -
  let ?index = "\<lparr>dimensions = 1, max_elements = - 1,
      vectors = ([] :: (c_int \<times> real list) list)\<rparr>"
  let ?calls = "[([0::real], 1 :: c_int), ([1], 2), ([2], 3)]"
  have a: "sint (max_elements ?index) < 0" by simp
  have b: "length (vectors ?index) + length ?calls < 2 ^ 63" by simp
  have c: "0 \<le> sint (dimensions ?index)" by simp
  have d: "list_all (\<lambda>call. nat (sint (1 :: c_int)) \<le> length (fst call)) ?calls" by simp
  have e: "add_all ?index ?calls =
     Some ([Inr (), Inr (), Inr ()],
       \<lparr>dimensions = 1, max_elements = - 1, vectors = [(1, [0]), (2, [1]), (3, [2])]\<rparr>)"
    by (simp add: add_vector_to_index_def size_t_of_int_def)
  from negative_capacity_never_full [OF a b]
  have f: "add_vector_to_index ?index [0] 1 \<noteq> Some (Inl IndexFull, ?index)" by blast
  show ?thesis using a b c d e f by (intro conjI) assumption+
qed

subsection \<open>Search\<close>

text \<open>
  C4: a search with \<open>k \<le> 0\<close>, or with \<open>k\<close> greater than the number of stored entries,
  fails with InvalidArgument; the outcome carries no result.
\<close>

theorem search_rejects_bad_k:
  "sint k \<le> 0 \<or> int (length (vectors index)) < sint k \<Longrightarrow>
     search_vector_in_index fsqrt index q k = Some (Inl InvalidArgument, index)"
  by (simp add: search_eq)

theorem search_rejects_bad_k_witness:
  "(sint (3 :: c_int) \<le> 0 \<or>
      int (length (vectors
        \<lparr>dimensions = 1, max_elements = 10, vectors = [(1, [0::real]), (2, [1])]\<rparr>))
        < sint (3 :: c_int)) \<and>
   search_vector_in_index sqrt
      \<lparr>dimensions = 1, max_elements = 10, vectors = [(1, [0::real]), (2, [1])]\<rparr> [0] 3 =
     Some (Inl InvalidArgument,
       \<lparr>dimensions = 1, max_elements = 10, vectors = [(1, [0::real]), (2, [1])]\<rparr>)"
  using search_rejects_bad_k [of 3
      "\<lparr>dimensions = 1, max_elements = 10, vectors = [(1, [0::real]), (2, [1])]\<rparr>" sqrt "[0]"]
  by simp

text \<open>
  C8: a search leaves the index as it was, whether it fails the check of \<open>k\<close> or
  passes it: in every run that is defined, the index after the call is the index before
  it, with its dimensions, its capacity and its entries. The run is undefined only when
  the check passes and a read is out of range.
\<close>

theorem search_leaves_index:
  "map_option snd (search_vector_in_index fsqrt index q k) =
     (if sint k \<le> 0 \<or> int (length (vectors index)) < sint k \<or>
         reads_ok (sint (dimensions index)) q (vectors index)
      then Some index else None)"
  by (simp add: search_eq)

text \<open>
  C5: on an index built by construction with a positive capacity and inserts, a search
  that passes the check of \<open>k\<close> (\<open>1 \<le> k \<le>\<close> number of stored entries; the query
  holding \<open>dimensions\<close> floats) returns \<open>k\<close> and exactly \<open>k\<close> results, never fewer: the
  first \<open>k\<close> pairs of an arrangement of all the (distance, identifier) pairs in ascending
  order of distance.
\<close>

theorem search_returns_k:
  assumes "0 < sint c"
      and "create_hnsw_index d c = Inr index0"
      and "add_all index0 calls = Some (outcomes, index)"
      and "0 < sint k" and "sint k \<le> int (length (vectors index))"
      and "nat (sint d) \<le> length q"
  shows "\<exists>ys. mset ys = mset (spec_pairs fsqrt index q) \<and> sorted (map fst ys) \<and>
           search_vector_in_index fsqrt index q k =
             Some (Inr (sint k, map (\<lambda>p. (snd p, fst p)) (take (nat (sint k)) ys)), index) \<and>
           length (take (nat (sint k)) ys) = nat (sint k)"
proof (intro exI conjI)
  show "mset (std_sort (spec_pairs fsqrt index q)) = mset (spec_pairs fsqrt index q)"
    by (rule std_sort_mset)
  show "sorted (map fst (std_sort (spec_pairs fsqrt index q)))"
    by (rule std_sort_sorted_fst)
  show "search_vector_in_index fsqrt index q k =
           Some (Inr (sint k, map (\<lambda>p. (snd p, fst p))
                   (take (nat (sint k)) (std_sort (spec_pairs fsqrt index q)))), index)"
    using assms by (rule built_search)
  show "length (take (nat (sint k)) (std_sort (spec_pairs fsqrt index q))) = nat (sint k)"
    using assms(4,5) by (simp add: std_sort_length spec_pairs_length)
qed

theorem search_returns_k_witness:
  "0 < sint (100 :: c_int) \<and>
   create_hnsw_index 4 100 =
     Inr \<lparr>dimensions = 4, max_elements = 100, vectors = ([] :: (c_int \<times> real list) list)\<rparr> \<and>
   add_all \<lparr>dimensions = 4, max_elements = 100, vectors = []\<rparr>
     [([1, 2, 3, 4], 1), ([2, 3, 4, 5], 2), ([3, 4, 5, 6], 3)] =
     Some ([Inr (), Inr (), Inr ()], test_index) \<and>
   0 < sint (2 :: c_int) \<and> sint (2 :: c_int) \<le> int (length (vectors test_index)) \<and>
   nat (sint (4 :: c_int)) \<le> length test_query \<and>
   (\<exists>ys. mset ys = mset (spec_pairs sqrt test_index test_query) \<and> sorted (map fst ys) \<and>
      search_vector_in_index sqrt test_index test_query 2 =
        Some (Inr (sint (2 :: c_int),
          map (\<lambda>p. (snd p, fst p)) (take (nat (sint (2 :: c_int))) ys)), test_index) \<and>
      length (take (nat (sint (2 :: c_int))) ys) = nat (sint (2 :: c_int))) \<and>
   search_vector_in_index sqrt test_index test_query 2 =
     Some (Inr (2, [(1, 1), (2, 1)]), test_index)"
proof -
  have a: "0 < sint (100 :: c_int)" by simp
  note b = test_index_built [THEN conjunct1]
  note c = test_index_built [THEN conjunct2]
  have d: "0 < sint (2 :: c_int)" by simp
  have e: "sint (2 :: c_int) \<le> int (length (vectors test_index))" by (simp add: test_index_def)
  have f: "nat (sint (4 :: c_int)) \<le> length test_query" by (simp add: test_query_def)
  have g: "search_vector_in_index sqrt test_index test_query 2 =
     Some (Inr (2, [(1, 1), (2, 1)]), test_index)"
    by (simp add: search_vector_in_index_def size_t_of_int_def euclidean_distance_def
      distance_loop.simps int_of_size_t_def std_sort_def pair_key_def test_index_def
      test_query_def sqrt_9)
  show ?thesis using a b c d e f g search_returns_k [OF a b c d e f, of sqrt]
    by (intro conjI) assumption+
qed

text \<open>
  C1, as claimed: entries at equal distance come out in insertion order, that is, the
  result follows the stable ranking of the specification. It does not on \<open>tie_index\<close>:
  the identifier 2 is inserted before the identifier 1, both are at distance 1 from the
  query, and the search returns 1 before 2.
\<close>

theorem ties_not_in_insertion_order:
  "add_all \<lparr>dimensions = 4, max_elements = 100, vectors = []\<rparr>
     [([1, 2, 3, 4], 2), ([2, 3, 4, 5], 1)] = Some ([Inr (), Inr ()], tie_index) \<and>
   search_vector_in_index sqrt tie_index test_query 2 =
     Some (Inr (2, [(1, 1), (2, 1)]), tie_index) \<and>
   map (\<lambda>p. (snd p, fst p)) (take 2 (spec_ranking (spec_pairs sqrt tie_index test_query))) =
     [(2, 1), (1, 1)]"
proof (intro conjI)
  show "add_all \<lparr>dimensions = 4, max_elements = 100, vectors = []\<rparr>
     [([1, 2, 3, 4], 2), ([2, 3, 4, 5], 1)] = Some ([Inr (), Inr ()], tie_index)"
    by (simp add: add_vector_to_index_def size_t_of_int_def tie_index_def)
  show "search_vector_in_index sqrt tie_index test_query 2 =
     Some (Inr (2, [(1, 1), (2, 1)]), tie_index)"
    by (simp add: search_vector_in_index_def size_t_of_int_def euclidean_distance_def
      distance_loop.simps int_of_size_t_def std_sort_def pair_key_def tie_index_def
      test_query_def)
  show "map (\<lambda>p. (snd p, fst p))
      (take 2 (spec_ranking (spec_pairs sqrt tie_index test_query))) = [(2, 1), (1, 1)]"
    by (simp add: spec_ranking_def spec_pairs_def spec_distance_def tie_index_def
      test_query_def upt_rec)
qed

text \<open>
  C1, amended: in the result of a search that passes the check of \<open>k\<close>, of two entries at
  equal distance the one with the smaller identifier comes first. Where the identifiers
  ascend in insertion order this is insertion order, and the result is the beginning of
  the stable ranking of the specification.
\<close>

theorem ties_by_identifier:
  assumes "0 < sint k" and "sint k \<le> int (length (vectors index))"
      and "reads_ok (sint (dimensions index)) q (vectors index)"
  shows "\<exists>n rs. search_vector_in_index fsqrt index q k = Some (Inr (n, rs), index) \<and>
           sorted_wrt (\<lambda>r s. snd r = snd s \<longrightarrow> sint (fst r) \<le> sint (fst s)) rs \<and>
           (sorted (map (\<lambda>e. sint (fst e)) (vectors index)) \<longrightarrow>
              rs = map (\<lambda>p. (snd p, fst p))
                     (take (length rs) (spec_ranking (spec_pairs fsqrt index q))))"
proof -
  from search_success [OF assms] obtain n where
    s: "search_vector_in_index fsqrt index q k =
           Some (Inr (n, map (\<lambda>p. (snd p, fst p))
             (take (nat n) (std_sort (spec_pairs fsqrt index q)))), index)"
    by blast
  let ?rs = "map (\<lambda>p. (snd p, fst p)) (take (nat n) (std_sort (spec_pairs fsqrt index q)))"
  have a: "sorted_wrt (\<lambda>r s. snd r = snd s \<longrightarrow> sint (fst r) \<le> sint (fst s)) ?rs"
    by (rule ties_ascending)
  have b: "?rs = map (\<lambda>p. (snd p, fst p))
      (take (length ?rs) (spec_ranking (spec_pairs fsqrt index q)))"
    if "sorted (map (\<lambda>e. sint (fst e)) (vectors index))"
  proof -
    from that have "std_sort (spec_pairs fsqrt index q) = spec_ranking (spec_pairs fsqrt index q)"
      by (intro sort_key_ids_ascending) (simp add: spec_pairs_ids)
    moreover have "take (min (length xs) m) xs = take m xs" for m and xs :: "('a \<times> c_int) list"
      by (simp add: min_def)
    ultimately show ?thesis by (simp add: take_map)
  qed
  from s a b show ?thesis by blast
qed

theorem ties_by_identifier_witness:
  "0 < sint (3 :: c_int) \<and> sint (3 :: c_int) \<le> int (length (vectors test_index)) \<and>
   reads_ok (sint (dimensions test_index)) test_query (vectors test_index) \<and>
   sorted (map (\<lambda>e. sint (fst e)) (vectors test_index)) \<and>
   search_vector_in_index sqrt test_index test_query 3 =
     Some (Inr (3, [(1, 1), (2, 1), (3, 3)]), test_index) \<and>
   [(1, 1), (2, 1), (3, 3)] =
     map (\<lambda>p. (snd p, fst p)) (take 3 (spec_ranking (spec_pairs sqrt test_index test_query)))"
proof -
  have a: "0 < sint (3 :: c_int)" by simp
  have b: "sint (3 :: c_int) \<le> int (length (vectors test_index))" by (simp add: test_index_def)
  note c = test_reads_ok
  have d: "sorted (map (\<lambda>e. sint (fst e)) (vectors test_index))" by (simp add: test_index_def)
  from ties_by_identifier [OF a b c, of sqrt] obtain n rs where
    r: "search_vector_in_index sqrt test_index test_query 3 = Some (Inr (n, rs), test_index)" and
    s: "sorted (map (\<lambda>e. sint (fst e)) (vectors test_index)) \<longrightarrow>
        rs = map (\<lambda>p. (snd p, fst p))
          (take (length rs) (spec_ranking (spec_pairs sqrt test_index test_query)))"
    by blast
  from r have rs: "rs = [(1, 1), (2, 1), (3, 3)]" by (simp add: test_run)
  from s d have "rs = map (\<lambda>p. (snd p, fst p))
      (take (length rs) (spec_ranking (spec_pairs sqrt test_index test_query)))" by blast
  then have "[(1, 1), (2, 1), (3, 3)] = map (\<lambda>p. (snd p, fst p))
      (take (length [(1 :: c_int, 1 :: real), (2, 1), (3, 3)])
         (spec_ranking (spec_pairs sqrt test_index test_query)))" unfolding rs .
  moreover have "length [(1 :: c_int, 1 :: real), (2, 1), (3, 3)] = 3" by simp
  ultimately have f: "[(1, 1), (2, 1), (3, 3)] =
     map (\<lambda>p. (snd p, fst p)) (take 3 (spec_ranking (spec_pairs sqrt test_index test_query)))"
    by (simp only:)
  show ?thesis using a b c d test_run f by (intro conjI) assumption+
qed

text \<open>
  C9: on an index built by construction with a positive capacity and inserts, the result
  of a search that passes the check of \<open>k\<close> is the first \<open>k\<close> pairs of the ascending
  lexicographic order of the (distance, identifier) pairs: of any arrangement \<open>ys\<close> of
  all the pairs in which the distances ascend and, at equal distance, the identifiers
  ascend. So entries at equal distance come out by ascending identifier, and the order of
  insertion has no part in the result.
\<close>

theorem lexicographic_result:
  assumes "0 < sint c"
      and "create_hnsw_index d c = Inr index0"
      and "add_all index0 calls = Some (outcomes, index)"
      and "0 < sint k" and "sint k \<le> int (length (vectors index))"
      and "nat (sint d) \<le> length q"
      and "mset ys = mset (spec_pairs fsqrt index q)"
      and "sorted_wrt lex_le ys"
  shows "search_vector_in_index fsqrt index q k =
           Some (Inr (sint k, map (\<lambda>p. (snd p, fst p)) (take (nat (sint k)) ys)), index)"
proof -
  from assms(7,8) have "ys = std_sort (spec_pairs fsqrt index q)" by (rule lex_sorted_unique)
  with built_search [OF assms(1-6)] show ?thesis by simp
qed

theorem lexicographic_result_witness:
  "0 < sint (100 :: c_int) \<and>
   create_hnsw_index 4 100 =
     Inr \<lparr>dimensions = 4, max_elements = 100, vectors = ([] :: (c_int \<times> real list) list)\<rparr> \<and>
   add_all \<lparr>dimensions = 4, max_elements = 100, vectors = []\<rparr>
     [([1, 2, 3, 4], 1), ([2, 3, 4, 5], 2), ([3, 4, 5, 6], 3)] =
     Some ([Inr (), Inr (), Inr ()], test_index) \<and>
   0 < sint (3 :: c_int) \<and> sint (3 :: c_int) \<le> int (length (vectors test_index)) \<and>
   nat (sint (4 :: c_int)) \<le> length test_query \<and>
   mset [(1, 1), (1, 2), (3, 3)] = mset (spec_pairs sqrt test_index test_query) \<and>
   sorted_wrt lex_le [(1 :: real, 1 :: c_int), (1, 2), (3, 3)] \<and>
   search_vector_in_index sqrt test_index test_query 3 =
     Some (Inr (sint (3 :: c_int), map (\<lambda>p. (snd p, fst p))
       (take (nat (sint (3 :: c_int))) [(1, 1), (1, 2), (3, 3)])), test_index)"
proof -
  have a: "0 < sint (100 :: c_int)" by simp
  note b = test_index_built [THEN conjunct1]
  note c = test_index_built [THEN conjunct2]
  have d: "0 < sint (3 :: c_int)" by simp
  have e: "sint (3 :: c_int) \<le> int (length (vectors test_index))" by (simp add: test_index_def)
  have f: "nat (sint (4 :: c_int)) \<le> length test_query" by (simp add: test_query_def)
  have g: "mset [(1, 1), (1, 2), (3, 3)] = mset (spec_pairs sqrt test_index test_query)"
    by (simp add: test_pairs)
  have h: "sorted_wrt lex_le [(1 :: real, 1 :: c_int), (1, 2), (3, 3)]"
    by (simp add: lex_le_def)
  show ?thesis using a b c d e f g h lexicographic_result [OF a b c d e f g h]
    by (intro conjI) assumption+
qed

text \<open>
  C6: in a search that passes the check of \<open>k\<close> and reads in range, the distance computed
  for each stored entry is the distance of the specification between the query and the
  vector of that entry: the square root of the sum, over the first \<open>dimensions\<close>
  components, of the squared differences. The loop over the entries yields exactly these
  distances, one for each entry in insertion order, each with the identifier of its
  entry; and the search returns the sorted list of exactly these pairs, cut to the
  count it returns. (The arithmetic is that of the code; \<open>spec_distance_real\<close> is the
  same distance in exact arithmetic.)
\<close>

theorem distances_are_euclidean:
  assumes "0 < sint k" and "sint k \<le> int (length (vectors index))"
      and "reads_ok (sint (dimensions index)) q (vectors index)"
  shows "distances_loop fsqrt (sint (dimensions index)) q (vectors index) [] =
           Some (map (\<lambda>e. (spec_distance fsqrt (nat (sint (dimensions index))) q (snd e), fst e))
                   (vectors index)) \<and>
         search_vector_in_index fsqrt index q k =
           Some (Inr (min (sint k) (sint (int_of_size_t (length (vectors index)))),
                      map (\<lambda>p. (snd p, fst p))
                        (take (nat (min (sint k) (sint (int_of_size_t (length (vectors index))))))
                           (std_sort
                              (map (\<lambda>e. (spec_distance fsqrt (nat (sint (dimensions index))) q (snd e),
                                          fst e))
                                 (vectors index))))),
                 index)"
  using assms by (simp add: distances_loop_eq search_eq spec_pairs_def)

theorem distances_are_euclidean_witness:
  "0 < sint (3 :: c_int) \<and> sint (3 :: c_int) \<le> int (length (vectors test_index)) \<and>
   reads_ok (sint (dimensions test_index)) test_query (vectors test_index) \<and>
   distances_loop sqrt (sint (dimensions test_index)) test_query (vectors test_index) [] =
     Some [(1, 1), (1, 2), (3, 3)] \<and>
   search_vector_in_index sqrt test_index test_query 3 =
     Some (Inr (3, [(1, 1), (2, 1), (3, 3)]), test_index) \<and>
   spec_distance sqrt 4 test_query [3, 4, 5, 6] = 3"
proof -
  have a: "0 < sint (3 :: c_int)" by simp
  have b: "sint (3 :: c_int) \<le> int (length (vectors test_index))" by (simp add: test_index_def)
  note c = test_reads_ok
  have p: "map (\<lambda>e. (spec_distance sqrt (nat (sint (dimensions test_index))) test_query (snd e),
      fst e)) (vectors test_index) = [(1, 1), (1, 2), (3, 3)]"
    using test_pairs by (simp only: spec_pairs_def)
  from distances_are_euclidean [OF a b c, of sqrt]
  have d: "distances_loop sqrt (sint (dimensions test_index)) test_query
      (vectors test_index) [] = Some [(1, 1), (1, 2), (3, 3)]"
    and s: "search_vector_in_index sqrt test_index test_query 3 =
      Some (Inr (min (sint (3 :: c_int)) (sint (int_of_size_t (length (vectors test_index)))),
        map (\<lambda>p. (snd p, fst p))
          (take (nat (min (sint (3 :: c_int)) (sint (int_of_size_t (length (vectors test_index))))))
             (std_sort [(1, 1), (1, 2), (3, 3)]))), test_index)"
    unfolding p by blast+
  have e: "search_vector_in_index sqrt test_index test_query 3 =
     Some (Inr (3, [(1, 1), (2, 1), (3, 3)]), test_index)"
    unfolding s by (simp add: int_of_size_t_def test_index_def std_sort_def pair_key_def)
  have f: "spec_distance sqrt 4 test_query [3, 4, 5, 6] = 3"
    by (simp add: spec_distance_def test_query_def sqrt_9 upt_rec)
  show ?thesis using a b c d e f by (intro conjI) assumption+
qed

end
